theory Spec2Isabelle
  imports Main
begin

section \<open>The Store: tables, rows and SQL statements\<close>

text \<open>
  The server keeps its data in four tables of a SQL Server database.  A table is a list
  of rows in table order; a statement is a function on the store.  \<open>Id\<close> columns are
  \<open>sql.Int\<close>; \<open>ParentId\<close> and \<open>FolderId\<close> are nullable and \<open>NULL\<close> is \<open>None\<close>.  A statement
  is modelled as succeeding: the constraints of the schema that are not created by the
  server itself (uniqueness, column lengths, foreign keys other than the ones of
  \<open>FolderTags\<close>) are outside the model.
\<close>

record folder_row =
  fo_Id :: int
  fo_Name :: string
  fo_ParentId :: "int option"
  fo_FullPath :: string

record file_row =
  fi_Id :: int
  fi_FolderId :: "int option"
  fi_Name :: string
  fi_StoragePath :: string
  fi_SizeBytes :: nat
  fi_MimeType :: string

text \<open>
  \<open>FileTags\<close> rows are \<open>(FileId, TagId)\<close>, \<open>FolderTags\<close> rows are \<open>(FolderId, TagId)\<close>.
  \<open>nextFolderId\<close> and \<open>nextFileId\<close> are the identity counters that \<open>INSERT\<close> draws from.
\<close>

record store =
  Folders :: "folder_row list"
  Files :: "file_row list"
  FileTags :: "(int \<times> int) list"
  FolderTags :: "(int \<times> int) list"
  nextFolderId :: int
  nextFileId :: int

text \<open>\<open>column = @param\<close> on a nullable column: a \<open>NULL\<close> on either side never compares equal.\<close>

definition sql_eq :: "int option \<Rightarrow> int option \<Rightarrow> bool" where
  "sql_eq a b = (case a of None \<Rightarrow> False | Some x \<Rightarrow> (case b of None \<Rightarrow> False | Some y \<Rightarrow> x = y))"

text \<open>\<open>column IN (subquery)\<close> on a nullable column.\<close>

definition sql_in :: "int option \<Rightarrow> int list \<Rightarrow> bool" where
  "sql_in a ids = (case a of None \<Rightarrow> False | Some x \<Rightarrow> x \<in> set ids)"

text \<open>
  \<open>DELETE FROM Folders WHERE P\<close>.  \<open>FolderTags\<close> is created with
  \<open>FOREIGN KEY (FolderId) REFERENCES Folders(Id) ON DELETE CASCADE\<close>, so its rows go with
  the folders they reference.
\<close>

definition delete_Folders :: "(folder_row \<Rightarrow> bool) \<Rightarrow> store \<Rightarrow> store" where
  "delete_Folders P s =
     (let gone = map fo_Id (filter P (Folders s));
          kept = filter (\<lambda>r. \<not> P r) (Folders s)
      in s\<lparr>Folders := kept,
            FolderTags := filter (\<lambda>ft. fst ft \<notin> set gone) (FolderTags s)\<rparr>)"

definition delete_Files :: "(file_row \<Rightarrow> bool) \<Rightarrow> store \<Rightarrow> store" where
  "delete_Files P s = s\<lparr>Files := filter (\<lambda>r. \<not> P r) (Files s)\<rparr>"

definition delete_FileTags :: "(int \<times> int \<Rightarrow> bool) \<Rightarrow> store \<Rightarrow> store" where
  "delete_FileTags P s = s\<lparr>FileTags := filter (\<lambda>r. \<not> P r) (FileTags s)\<rparr>"

text \<open>The number of rows a batch of statements removes, table by table.\<close>

definition rows_removed :: "store \<Rightarrow> store \<Rightarrow> nat" where
  "rows_removed s s' =
     (length (Folders s) - length (Folders s')) + (length (Files s) - length (Files s'))
     + (length (FileTags s) - length (FileTags s'))
     + (length (FolderTags s) - length (FolderTags s'))"

subsection \<open>The two cleanup jobs\<close>

text \<open>
  The job queued for a file row that is missing on disk:
  \<^verbatim>\<open>DELETE FROM FileTags WHERE FileId=@FileId; DELETE FROM Files WHERE Id=@FileId;\<close>
\<close>

definition cleanupFile :: "int \<Rightarrow> store \<Rightarrow> store" where
  "cleanupFile fileId s =
     delete_Files (\<lambda>f. fi_Id f = fileId) (delete_FileTags (\<lambda>ft. fst ft = fileId) s)"

text \<open>
  The job queued for a folder row that is missing on disk:
  \<^verbatim>\<open>DELETE FROM FileTags WHERE FileId IN (SELECT Id FROM Files WHERE FolderId=@FolderId);
  DELETE FROM Files WHERE FolderId=@FolderId;
  DELETE FROM Folders WHERE Id=@FolderId;\<close>
\<close>

definition cleanupFolder :: "int \<Rightarrow> store \<Rightarrow> store" where
  "cleanupFolder folderId s =
     (let ids = map fi_Id (filter (\<lambda>f. sql_eq (fi_FolderId f) (Some folderId)) (Files s));
          s1 = delete_FileTags (\<lambda>ft. fst ft \<in> set ids) s;
          s2 = delete_Files (\<lambda>f. sql_eq (fi_FolderId f) (Some folderId)) s1
      in delete_Folders (\<lambda>r. fo_Id r = folderId) s2)"


section \<open>Strings and paths\<close>

definition slash :: char where
  "slash = CHR ''/''"

definition backslash :: char where
  "backslash = CHR 0x5C"

text \<open>JavaScript's \<open>s.split(c)\<close> for a one-character separator: \<open>"".split("/")\<close> is \<open>[""]\<close>.\<close>

fun split_on :: "char \<Rightarrow> string \<Rightarrow> string list" where
  "split_on c [] = [[]]"
| "split_on c (x # xs) =
     (if x = c then [] # split_on c xs
      else (case split_on c xs of [] \<Rightarrow> [[x]] | w # ws \<Rightarrow> (x # w) # ws))"

text \<open>\<open>parts.join(sep)\<close>.\<close>

fun join_with :: "string \<Rightarrow> string list \<Rightarrow> string" where
  "join_with sep [] = []"
| "join_with sep [x] = x"
| "join_with sep (x # y # ys) = x @ sep @ join_with sep (y # ys)"

text \<open>\<open>s.replace(/\\/g, "/")\<close>.\<close>

definition replace_backslashes :: "string \<Rightarrow> string" where
  "replace_backslashes s = map (\<lambda>c. if c = backslash then slash else c) s"

text \<open>\<open>s.lastIndexOf("/")\<close>: the index of the last slash, \<open>-1\<close> when there is none.\<close>

definition lastIndexOf_slash :: "string \<Rightarrow> int" where
  "lastIndexOf_slash s =
     (if slash \<in> set s then int (length s) - 1 - int (length (takeWhile (\<lambda>c. c \<noteq> slash) (rev s)))
      else - 1)"

text \<open>
  The validation \<open>!name || !name.trim()\<close> of the request handlers rejects the empty string
  and a string of white space only.  A character here is a code unit below 256; the
  white space that \<open>trim\<close> strips in that range is the blank, tab, line feed, vertical
  tab, form feed, carriage return and the no-break space U+00A0.
\<close>

definition js_space :: "char \<Rightarrow> bool" where
  "js_space c = (c \<in> set [CHR '' '', CHR 0x09, CHR 0x0A, CHR 0x0B, CHR 0x0C, CHR 0x0D, CHR 0xA0])"

definition name_rejected :: "string \<Rightarrow> bool" where
  "name_rejected name = (name = [] \<or> list_all js_space name)"

subsection \<open>Node's \<open>path\<close> module (POSIX)\<close>

text \<open>
  \<open>path.normalize\<close> works through the segments between slashes: an empty segment and
  \<open>.\<close> are dropped, \<open>..\<close> removes the segment before it, and is kept only in a relative
  path that has nothing left to remove.
\<close>

definition norm_step :: "bool \<Rightarrow> string list \<Rightarrow> string \<Rightarrow> string list" where
  "norm_step allowAboveRoot res seg =
     (if seg = [] \<or> seg = ''.'' then res
      else if seg = ''..'' then
        (if res \<noteq> [] \<and> last res \<noteq> ''..'' then butlast res
         else if allowAboveRoot then res @ [''..''] else res)
      else res @ [seg])"

definition normalize_segs :: "bool \<Rightarrow> string list \<Rightarrow> string list" where
  "normalize_segs allowAboveRoot segs = foldl (norm_step allowAboveRoot) [] segs"

definition path_normalize :: "string \<Rightarrow> string" where
  "path_normalize p =
     (if p = [] then ''.''
      else
        let isAbsolute = (hd p = slash);
            trailingSeparator = (last p = slash);
            q = join_with ''/'' (normalize_segs (\<not> isAbsolute) (split_on slash p))
        in if q = [] then (if isAbsolute then ''/'' else if trailingSeparator then ''./'' else ''.'')
           else (if isAbsolute then ''/'' else []) @ q @ (if trailingSeparator then ''/'' else []))"

definition path_join :: "string list \<Rightarrow> string" where
  "path_join args =
     (let used = filter (\<lambda>a. a \<noteq> []) args
      in if used = [] then ''.'' else path_normalize (join_with ''/'' used))"

text \<open>
  \<open>path.relative(from, to)\<close> resolves both paths, drops their common leading segments,
  climbs out of what is left of \<open>from\<close> and descends into what is left of \<open>to\<close>.  Every
  call in the server passes two absolute paths; a relative argument would be resolved
  against the working directory, which is taken to be \<open>/\<close>.
\<close>

fun common_prefix_len :: "string list \<Rightarrow> string list \<Rightarrow> nat" where
  "common_prefix_len (x # xs) (y # ys) = (if x = y then Suc (common_prefix_len xs ys) else 0)"
| "common_prefix_len _ _ = 0"

definition path_relative :: "string \<Rightarrow> string \<Rightarrow> string" where
  "path_relative from to =
     (let f = normalize_segs False (split_on slash from);
          t = normalize_segs False (split_on slash to);
          k = common_prefix_len f t
      in join_with ''/'' (replicate (length f - k) ''..'' @ drop k t))"

text \<open>
  \<open>path.dirname\<close> and \<open>path.basename\<close> scan from the end: trailing slashes are skipped,
  then the last segment, and \<open>dirname\<close> returns what is before the slash found there.
\<close>

definition path_dirname :: "string \<Rightarrow> string" where
  "path_dirname p =
     (if p = [] then ''.''
      else
        let hasRoot = (hd p = slash);
            r = dropWhile (\<lambda>c. c \<noteq> slash) (dropWhile (\<lambda>c. c = slash) (rev (tl p)))
        in if r = [] then (if hasRoot then ''/'' else ''.'')
           else if hasRoot \<and> length r = 1 then ''//''
           else take (length r) p)"

definition path_basename :: "string \<Rightarrow> string" where
  "path_basename p = rev (takeWhile (\<lambda>c. c \<noteq> slash) (dropWhile (\<lambda>c. c = slash) (rev p)))"

subsection \<open>The path mapper\<close>

text \<open>
  \<open>UPLOAD_ROOT = path.join(__dirname, "uploads")\<close>; the directory of the server module,
  \<open>__dirname\<close>, is the parameter \<open>dn\<close> of everything that maps paths.
\<close>

definition UPLOAD_ROOT :: "string \<Rightarrow> string" where
  "UPLOAD_ROOT dn = path_join [dn, ''uploads'']"

text \<open>
  \<^verbatim>\<open>const parts = (fullPath || "").split("/").filter(Boolean);
  return path.join(UPLOAD_ROOT, ...parts);\<close>
\<close>

definition fullPathToPhysical :: "string \<Rightarrow> string \<Rightarrow> string" where
  "fullPathToPhysical dn fullPath =
     path_join (UPLOAD_ROOT dn # filter (\<lambda>p. p \<noteq> []) (split_on slash fullPath))"

text \<open>
  The way back, as the recursive sync computes it for every directory it meets:
  \<^verbatim>\<open>const rel = path.relative(UPLOAD_ROOT, fullPath).replace(/\\/g, "/");
  const logicalFullPath = "/" + rel;\<close>
\<close>

definition toLogical :: "string \<Rightarrow> string \<Rightarrow> string" where
  "toLogical dn physicalPath =
     ''/'' @ replace_backslashes (path_relative (UPLOAD_ROOT dn) physicalPath)"


text \<open>
  Well-formed paths.  A segment is non-empty, has no slash and is neither \<open>.\<close> nor \<open>..\<close>;
  a name is a segment without a backslash.  \<open>abs_path segs\<close> is the absolute path with
  these segments, \<open>/\<close> when there are none.
\<close>

definition abs_path :: "string list \<Rightarrow> string" where
  "abs_path segs = ''/'' @ join_with ''/'' segs"

definition good_seg :: "string \<Rightarrow> bool" where
  "good_seg x = (x \<noteq> [] \<and> slash \<notin> set x \<and> x \<noteq> ''.'' \<and> x \<noteq> ''..'')"

definition good_name :: "string \<Rightarrow> bool" where
  "good_name x = (good_seg x \<and> backslash \<notin> set x)"

section \<open>SQL string operations\<close>

text \<open>
  \<open>subject LIKE pattern\<close> of Transact-SQL: \<open>%\<close> matches any string, \<open>_\<close> any single
  character, \<open>[...]\<close> one character out of a set (\<open>a-z\<close> for a range, a leading \<open>^\<close> for
  the complement), anything else itself.  How two letters compare is a matter of the
  collation of the database, which the sources do not fix; here characters are compared
  exactly (a binary collation).  Under a collation that ignores case a literal also
  matches the other case of its letter; the wild cards are the same under every
  collation.  A pattern with a \<open>[\<close> that is never closed matches nothing.
\<close>

datatype like_token = AnyString | AnyChar | CharSet string | Literal char

fun like_tokens :: "string option \<Rightarrow> string \<Rightarrow> like_token list option" where
  "like_tokens None [] = Some []"
| "like_tokens (Some acc) [] = None"
| "like_tokens None (c # cs) =
     (if c = CHR ''['' then like_tokens (Some []) cs
      else map_option
             ((#) (if c = CHR ''%'' then AnyString else if c = CHR ''_'' then AnyChar else Literal c))
             (like_tokens None cs))"
| "like_tokens (Some acc) (c # cs) =
     (if c = CHR '']'' then map_option ((#) (CharSet acc)) (like_tokens None cs)
      else like_tokens (Some (acc @ [c])) cs)"

fun in_set_items :: "string \<Rightarrow> char \<Rightarrow> bool" where
  "in_set_items (a # m # b # rest) c =
     (if m = CHR ''-'' then ((of_char a :: nat) \<le> of_char c \<and> (of_char c :: nat) \<le> of_char b)
                            \<or> in_set_items rest c
      else c = a \<or> in_set_items (m # b # rest) c)"
| "in_set_items (a # rest) c = (c = a \<or> in_set_items rest c)"
| "in_set_items [] c = False"

definition in_char_set :: "string \<Rightarrow> char \<Rightarrow> bool" where
  "in_char_set items c =
     (case items of [] \<Rightarrow> False
      | x # xs \<Rightarrow> if x = CHR ''^'' then \<not> in_set_items xs c else in_set_items items c)"

fun like_run :: "like_token list \<Rightarrow> string \<Rightarrow> bool" where
  "like_run [] s = (s = [])"
| "like_run (AnyString # ts) [] = like_run ts []"
| "like_run (AnyString # ts) (c # cs) = (like_run ts (c # cs) \<or> like_run (AnyString # ts) cs)"
| "like_run (AnyChar # ts) [] = False"
| "like_run (AnyChar # ts) (c # cs) = like_run ts cs"
| "like_run (CharSet items # ts) [] = False"
| "like_run (CharSet items # ts) (c # cs) = (in_char_set items c \<and> like_run ts cs)"
| "like_run (Literal x # ts) [] = False"
| "like_run (Literal x # ts) (c # cs) = (x = c \<and> like_run ts cs)"

definition sql_like :: "string \<Rightarrow> string \<Rightarrow> bool" where
  "sql_like subject pattern =
     (case like_tokens None pattern of None \<Rightarrow> False | Some ts \<Rightarrow> like_run ts subject)"

text \<open>\<open>LEN(s)\<close> does not count trailing blanks; \<open>SUBSTRING(s, start, length)\<close> counts from 1.\<close>

definition sql_LEN :: "string \<Rightarrow> nat" where
  "sql_LEN s = length (dropWhile (\<lambda>c. c = CHR '' '') (rev s))"

definition sql_SUBSTRING :: "string \<Rightarrow> nat \<Rightarrow> nat \<Rightarrow> string" where
  "sql_SUBSTRING s start len = take (start + len - max start 1) (drop (max start 1 - 1) s)"

text \<open>A path with none of the characters that \<open>LIKE\<close> reads as a wild card.\<close>

definition like_plain :: "string \<Rightarrow> bool" where
  "like_plain s = (CHR ''%'' \<notin> set s \<and> CHR ''_'' \<notin> set s \<and> CHR ''['' \<notin> set s)"

section \<open>The disk\<close>

text \<open>
  The filesystem is a tree: a regular file with its size, a directory with its entries
  (and whether \<open>readdir\<close> on it succeeds), or something that is neither (a link, a
  socket).  The reads the server makes are \<open>access\<close>, \<open>readdir\<close> and \<open>stat\<close>.
\<close>

datatype node = FileNode nat | DirNode bool "(string \<times> node) list" | OtherNode

fun lookup_segs :: "node \<Rightarrow> string list \<Rightarrow> node option" where
  "lookup_segs n [] = Some n"
| "lookup_segs (DirNode rd ents) (x # xs) =
     (case map_of ents x of None \<Rightarrow> None | Some c \<Rightarrow> lookup_segs c xs)"
| "lookup_segs _ (x # xs) = None"

text \<open>
  How the system resolves a path, component by component, with the directories passed
  on the way kept in \<open>up\<close>.  Every component, also an empty one (a doubled or trailing
  slash), \<open>.\<close> and \<open>..\<close>, needs the node reached so far to be a directory; \<open>..\<close> of the
  root is the root.  Nothing is cancelled lexically: \<open>/a/missing/..\<close> does not resolve.
\<close>

fun resolve :: "node \<Rightarrow> node list \<Rightarrow> string list \<Rightarrow> node option" where
  "resolve cur up [] = Some cur"
| "resolve (DirNode rd ents) up (x # xs) =
     (if x = [] \<or> x = ''.'' then resolve (DirNode rd ents) up xs
      else if x = ''..''
      then (case up of [] \<Rightarrow> resolve (DirNode rd ents) [] xs | par # rest \<Rightarrow> resolve par rest xs)
      else (case map_of ents x of
              None \<Rightarrow> None
            | Some c \<Rightarrow> resolve c (DirNode rd ents # up) xs))"
| "resolve _ up (x # xs) = None"

text \<open>
  The node a path names, if any.  The empty path names nothing.  The tree holds what is
  under the root directory; a relative path, which the system resolves from the working
  directory of the process, is taken to name nothing.
\<close>

definition fs_lookup :: "node \<Rightarrow> string \<Rightarrow> node option" where
  "fs_lookup disk p =
     (case p of [] \<Rightarrow> None
      | c # cs \<Rightarrow> if c = slash then resolve disk [] (split_on slash cs) else None)"

text \<open>\<open>await fsPromises.access(p)\<close> returns when the path exists and throws when it does not.\<close>

definition fs_access :: "node \<Rightarrow> string \<Rightarrow> bool" where
  "fs_access disk p = (fs_lookup disk p \<noteq> None)"

text \<open>\<open>(await fsPromises.stat(p)).size || 0\<close>; \<open>None\<close> when \<open>stat\<close> throws.\<close>

definition fs_stat_size :: "node \<Rightarrow> string \<Rightarrow> nat option" where
  "fs_stat_size disk p =
     (case fs_lookup disk p of None \<Rightarrow> None
      | Some n \<Rightarrow> Some (case n of FileNode sz \<Rightarrow> sz | _ \<Rightarrow> 0))"

section \<open>Background jobs and the job queue\<close>

text \<open>
  The closures the server hands to \<open>jobQueue.enqueue\<close>, each with what it captures: the
  recursive sync of a folder, the two database cleanups, and the removals from disk.
\<close>

datatype job =
    SyncJob "int option" string
  | CleanupFileJob int
  | CleanupFolderJob int
  | RmFolderJob string
  | UnlinkFileJob string

text \<open>
  What running a job looks like from the queue: \<open>job()\<close> either throws before it returns a
  promise, or returns a promise that settles after some number of further suspension
  points, fulfilled (\<open>True\<close>) or rejected (\<open>False\<close>).
\<close>

datatype behaviour = ThrowsAtCall | Settles nat bool

definition fails :: "behaviour \<Rightarrow> bool" where
  "fails b = (case b of ThrowsAtCall \<Rightarrow> True | Settles n ok \<Rightarrow> \<not> ok)"

datatype 'j event = Start 'j | Finish 'j

text \<open>
  \<open>jobs\<close> and \<open>processing\<close> are the two fields of the \<open>JobQueue\<close> object.  \<open>awaiting\<close>
  holds one entry for every call of \<open>process()\<close> that is suspended at \<open>await job()\<close>: the
  job it started and the suspension points left before that job's promise settles.
  \<open>trace\<close> and \<open>errors\<close> record what happened: the start and the end of each job, and the
  jobs reported by \<open>console.error("Background job error:", err)\<close>.
\<close>

record 'j jobqueue =
  jobs :: "'j list"
  processing :: bool
  awaiting :: "('j \<times> nat) list"
  trace :: "'j event list"
  errors :: "'j list"

definition new_JobQueue :: "'j jobqueue" where
  "new_JobQueue = \<lparr>jobs = [], processing = False, awaiting = [], trace = [], errors = []\<rparr>"

text \<open>
  The loop of \<open>process()\<close> from its head up to the point where it gives up control:
  \<^verbatim>\<open>while (this.jobs.length > 0) {
    const job = this.jobs.shift();
    try { await job(); } catch (err) { console.error("Background job error:", err); }
  }
  this.processing = false;\<close>
  A job that throws at the call is caught and the loop goes on at once; otherwise the
  loop is suspended at the \<open>await\<close>.
\<close>

fun drain :: "('j \<Rightarrow> behaviour) \<Rightarrow> 'j list \<Rightarrow> 'j jobqueue \<Rightarrow> 'j jobqueue" where
  "drain beh [] q = q\<lparr>jobs := [], processing := False\<rparr>"
| "drain beh (j # js) q =
     (case beh j of
        ThrowsAtCall \<Rightarrow>
          drain beh js (q\<lparr>trace := trace q @ [Start j, Finish j], errors := errors q @ [j]\<rparr>)
      | Settles n ok \<Rightarrow>
          q\<lparr>jobs := js, awaiting := awaiting q @ [(j, n)], trace := trace q @ [Start j]\<rparr>)"

text \<open>
  \<^verbatim>\<open>async process() {
    if (this.processing || this.jobs.length === 0) return;
    this.processing = true;
    ...\<close>
\<close>

definition process :: "('j \<Rightarrow> behaviour) \<Rightarrow> 'j jobqueue \<Rightarrow> 'j jobqueue" where
  "process beh q =
     (if processing q \<or> jobs q = [] then q
      else drain beh (jobs q) (q\<lparr>processing := True\<rparr>))"

text \<open>\<^verbatim>\<open>enqueue(fn) { this.jobs.push(fn); this.process(); }\<close>\<close>

definition enqueue :: "('j \<Rightarrow> behaviour) \<Rightarrow> 'j \<Rightarrow> 'j jobqueue \<Rightarrow> 'j jobqueue" where
  "enqueue beh fn q = process beh (q\<lparr>jobs := jobs q @ [fn]\<rparr>)"

text \<open>
  The event loop resumes the \<open>i\<close>-th suspended call of \<open>process()\<close>: the job it awaits
  passes one of its own suspension points, or its promise settles, a rejection is caught
  and logged, and the loop goes on with the next job.
\<close>

definition resume :: "('j \<Rightarrow> behaviour) \<Rightarrow> nat \<Rightarrow> 'j jobqueue \<Rightarrow> 'j jobqueue" where
  "resume beh i q =
     (if i < length (awaiting q) then
        (case awaiting q ! i of
           (j, Suc n) \<Rightarrow> q\<lparr>awaiting := (awaiting q)[i := (j, n)]\<rparr>
         | (j, 0) \<Rightarrow>
             (let q1 = q\<lparr>awaiting := take i (awaiting q) @ drop (Suc i) (awaiting q),
                         trace := trace q @ [Finish j],
                         errors := (if fails (beh j) then errors q @ [j] else errors q)\<rparr>
              in drain beh (jobs q1) q1))
      else q)"

datatype 'j action = Enqueue 'j | Resume nat

fun step :: "('j \<Rightarrow> behaviour) \<Rightarrow> 'j jobqueue \<Rightarrow> 'j action \<Rightarrow> 'j jobqueue" where
  "step beh q (Enqueue fn) = enqueue beh fn q"
| "step beh q (Resume i) = resume beh i q"

definition run :: "('j \<Rightarrow> behaviour) \<Rightarrow> 'j action list \<Rightarrow> 'j jobqueue" where
  "run beh acts = foldl (step beh) new_JobQueue acts"

text \<open>
  What a run is measured against: the jobs passed to \<open>enqueue\<close>, in order; the jobs
  whose execution has ended, in order; and the trace of jobs that run one after the other.
\<close>

definition enqueued :: "'j action list \<Rightarrow> 'j list" where
  "enqueued acts = concat (map (\<lambda>a. case a of Enqueue fn \<Rightarrow> [fn] | Resume i \<Rightarrow> []) acts)"

definition finished :: "'j jobqueue \<Rightarrow> 'j list" where
  "finished q = concat (map (\<lambda>e. case e of Start j \<Rightarrow> [] | Finish j \<Rightarrow> [j]) (trace q))"

definition serial :: "'j list \<Rightarrow> 'j event list" where
  "serial js = concat (map (\<lambda>j. [Start j, Finish j]) js)"

text \<open>
  The number of times the event loop has to resume the queue before it is idle, when no
  further job arrives, and the queue after that many resumptions.
\<close>

definition cost :: "behaviour \<Rightarrow> nat" where
  "cost b = (case b of ThrowsAtCall \<Rightarrow> 0 | Settles n ok \<Rightarrow> Suc n)"

definition work :: "('j \<Rightarrow> behaviour) \<Rightarrow> 'j jobqueue \<Rightarrow> nat" where
  "work beh q =
     sum_list (map (\<lambda>a. Suc (snd a)) (awaiting q)) + sum_list (map (\<lambda>j. cost (beh j)) (jobs q))"

definition settle :: "('j \<Rightarrow> behaviour) \<Rightarrow> 'j jobqueue \<Rightarrow> 'j jobqueue" where
  "settle beh q = (resume beh 0 ^^ work beh q) q"

text \<open>The invariant of the queue, and the jobs it has taken in so far.\<close>

definition qinv :: "('j \<Rightarrow> behaviour) \<Rightarrow> 'j jobqueue \<Rightarrow> bool" where
  "qinv beh q =
     (length (awaiting q) \<le> 1 \<and> processing q = (awaiting q \<noteq> [])
      \<and> (awaiting q = [] \<longrightarrow> jobs q = [])
      \<and> trace q = serial (finished q) @ map (\<lambda>a. Start (fst a)) (awaiting q)
      \<and> errors q = filter (\<lambda>j. fails (beh j)) (finished q))"

definition served :: "'j jobqueue \<Rightarrow> 'j list" where
  "served q = finished q @ map fst (awaiting q) @ jobs q"


section \<open>Request handlers\<close>

datatype http_error = HttpError nat string

text \<open>
  An \<open>INSERT\<close> draws the row's \<open>Id\<close> from the identity counter and returns the row
  (\<open>OUTPUT INSERTED.*\<close>).
\<close>

definition insert_Folder :: "string \<Rightarrow> int option \<Rightarrow> string \<Rightarrow> store \<Rightarrow> folder_row \<times> store" where
  "insert_Folder name parentId fullPath s =
     (let row = \<lparr>fo_Id = nextFolderId s, fo_Name = name, fo_ParentId = parentId,
                 fo_FullPath = fullPath\<rparr>
      in (row, s\<lparr>Folders := Folders s @ [row], nextFolderId := nextFolderId s + 1\<rparr>))"

definition insert_File ::
  "int option \<Rightarrow> string \<Rightarrow> string \<Rightarrow> nat \<Rightarrow> string \<Rightarrow> store \<Rightarrow> store" where
  "insert_File folderId name storagePath sizeBytes mimeType s =
     s\<lparr>Files := Files s @ [\<lparr>fi_Id = nextFileId s, fi_FolderId = folderId, fi_Name = name,
                              fi_StoragePath = storagePath, fi_SizeBytes = sizeBytes,
                              fi_MimeType = mimeType\<rparr>],
       nextFileId := nextFileId s + 1\<rparr>"

text \<open>A request parameter that JavaScript reads as true: a number that is neither missing nor 0.\<close>

definition truthy :: "int option \<Rightarrow> bool" where
  "truthy x = (case x of None \<Rightarrow> False | Some n \<Rightarrow> n \<noteq> 0)"

text \<open>
  A number bound as \<open>sql.Int\<close> has to fit 32 bits; for any other number the driver
  rejects the parameter and the request fails.
\<close>

definition sql_Int_range :: "int option \<Rightarrow> bool" where
  "sql_Int_range x =
     (case x of None \<Rightarrow> True | Some n \<Rightarrow> - 2147483648 \<le> n \<and> n \<le> 2147483647)"

subsection \<open>Creating folders\<close>

text \<open>
  \<open>POST /api/folders\<close> with \<open>{name, parentId}\<close>.  \<open>mkdir\<close> is
  \<open>fsPromises.mkdir(p, {recursive: true})\<close> on the disk \<open>d\<close>, \<open>None\<close> when it throws.
\<close>

definition POST_api_folders ::
  "string \<Rightarrow> ('d \<Rightarrow> string \<Rightarrow> 'd option) \<Rightarrow> string \<Rightarrow> int option \<Rightarrow> 'd \<times> store
     \<Rightarrow> http_error + (folder_row \<times> 'd \<times> store)" where
  "POST_api_folders dn mkdir name parentId w =
     (let d = fst w; s = snd w in
      if name_rejected name then Inl (HttpError 400 ''Folder name required'')
      else
        (case (if truthy parentId
               then (case filter (\<lambda>r. sql_eq (Some (fo_Id r)) parentId) (Folders s) of
                       [] \<Rightarrow> Inl (HttpError 400 ''Parent not found'')
                     | p # _ \<Rightarrow> Inr (Some (fo_Id p), fo_FullPath p))
               else Inr (None, ''/root'')) of
           Inl e \<Rightarrow> Inl e
         | Inr (parentDbId, parentPath) \<Rightarrow>
             (let fullPath = parentPath @ ''/'' @ name in
              case mkdir d (fullPathToPhysical dn fullPath) of
                None \<Rightarrow> Inl (HttpError 500 ''Failed to create folder'')
              | Some d' \<Rightarrow>
                  (let (row, s') = insert_Folder name parentDbId fullPath s
                   in Inr (row, d', s')))))"

text \<open>
  The folder chain of an upload: for every sub-directory of the uploaded item's relative
  path, the child folder of that name is looked up under the current folder, and created
  when it is missing.  \<open>nameEq\<close> is the comparison \<open>Name=@Name\<close> of the database's
  collation.  \<open>None\<close> is the exception of a failed \<open>mkdir\<close>, which ends the upload.
\<close>

fun ensureFolderChain ::
  "string \<Rightarrow> (string \<Rightarrow> string \<Rightarrow> bool) \<Rightarrow> ('d \<Rightarrow> string \<Rightarrow> 'd option) \<Rightarrow> string list
     \<Rightarrow> int \<times> string \<Rightarrow> 'd \<times> store \<Rightarrow> ((int \<times> string) \<times> 'd \<times> store) option" where
  "ensureFolderChain dn nameEq mkdir [] cur w = Some (cur, w)"
| "ensureFolderChain dn nameEq mkdir (segment # subDirs) cur w =
     (if segment = [] then ensureFolderChain dn nameEq mkdir subDirs cur w
      else
        (let name = filter (\<lambda>c. c \<noteq> slash \<and> c \<noteq> backslash) segment;
             exist = filter (\<lambda>r. sql_eq (fo_ParentId r) (Some (fst cur)) \<and> nameEq (fo_Name r) name)
                            (Folders (snd w))
         in case exist of
              r # _ \<Rightarrow> ensureFolderChain dn nameEq mkdir subDirs (fo_Id r, fo_FullPath r) w
            | [] \<Rightarrow>
                (let newPath = snd cur @ ''/'' @ name in
                 case mkdir (fst w) (fullPathToPhysical dn newPath) of
                   None \<Rightarrow> None
                 | Some d' \<Rightarrow>
                     (let (row, s') = insert_Folder name (Some (fst cur)) newPath (snd w)
                      in ensureFolderChain dn nameEq mkdir subDirs (fo_Id row, fo_FullPath row)
                           (d', s')))))"

subsection \<open>Deleting and renaming folders\<close>

text \<open>
  \<open>DELETE /api/folder/:id\<close>.  \<open>rid\<close> is \<open>parseInt(req.params.id, 10)\<close>, \<open>None\<close> for \<open>NaN\<close>.
  The three \<open>DELETE\<close> statements select by \<open>FullPath LIKE @FullPathPrefix\<close> with
  \<open>@FullPathPrefix = folder.FullPath + "%"\<close>; removing the directory from disk is left to
  a job.  An \<open>id\<close> that does not fit \<open>sql.Int\<close> makes the first query throw, which the
  handler answers with 500.
\<close>

definition DELETE_api_folder :: "string \<Rightarrow> int option \<Rightarrow> store \<Rightarrow> http_error + (store \<times> job)" where
  "DELETE_api_folder dn rid s =
     (if \<not> truthy rid then Inl (HttpError 400 ''Invalid id'')
      else if \<not> sql_Int_range rid then Inl (HttpError 500 ''Failed'')
      else
        (case filter (\<lambda>r. sql_eq (Some (fo_Id r)) rid) (Folders s) of
           [] \<Rightarrow> Inl (HttpError 404 ''Folder not found'')
         | folder # _ \<Rightarrow>
             (let phys = fullPathToPhysical dn (fo_FullPath folder);
                  FullPathPrefix = fo_FullPath folder @ ''%'';
                  folderIds = map fo_Id (filter (\<lambda>r. sql_like (fo_FullPath r) FullPathPrefix)
                                                (Folders s));
                  fileIds = map fi_Id (filter (\<lambda>f. sql_in (fi_FolderId f) folderIds) (Files s));
                  s1 = delete_FileTags (\<lambda>ft. fst ft \<in> set fileIds) s;
                  s2 = delete_Files (\<lambda>f. sql_in (fi_FolderId f) folderIds) s1;
                  s3 = delete_Folders (\<lambda>r. sql_like (fo_FullPath r) FullPathPrefix) s2
              in Inr (s3, RmFolderJob phys))))"

text \<open>
  \<open>PATCH /api/folder/:id\<close> with \<open>{name}\<close>:
  \<^verbatim>\<open>UPDATE Folders
  SET FullPath = @NewPrefix + SUBSTRING(FullPath, LEN(@OldPrefix) + 1, 2000)
  WHERE FullPath LIKE @OldPrefix + '%';
  UPDATE Folders SET Name=@Name WHERE Id=@Id;\<close>
  and then, inside a \<open>try\<close> whose \<open>catch\<close> only logs, \<open>mkdir\<close> of the new parent and
  \<open>rename\<close> of the directory.
\<close>

definition rename_update :: "string \<Rightarrow> string \<Rightarrow> string \<Rightarrow> int \<Rightarrow> store \<Rightarrow> store" where
  "rename_update OldPrefix NewPrefix NameP IdP s =
     (let fs1 = map (\<lambda>r. if sql_like (fo_FullPath r) (OldPrefix @ ''%'')
                          then r\<lparr>fo_FullPath :=
                                   NewPrefix @ sql_SUBSTRING (fo_FullPath r) (sql_LEN OldPrefix + 1) 2000\<rparr>
                          else r) (Folders s);
          fs2 = map (\<lambda>r. if fo_Id r = IdP then r\<lparr>fo_Name := NameP\<rparr> else r) fs1
      in s\<lparr>Folders := fs2\<rparr>)"

definition PATCH_api_folder ::
  "string \<Rightarrow> ('d \<Rightarrow> string \<Rightarrow> 'd option) \<Rightarrow> ('d \<Rightarrow> string \<Rightarrow> string \<Rightarrow> 'd option)
     \<Rightarrow> int option \<Rightarrow> string \<Rightarrow> 'd \<times> store \<Rightarrow> http_error + ('d \<times> store)" where
  "PATCH_api_folder dn mkdir rename rid name w =
     (let d = fst w; s = snd w in
      if \<not> truthy rid then Inl (HttpError 400 ''Invalid id'')
      else if name_rejected name then Inl (HttpError 400 ''Name required'')
      else
        (case filter (\<lambda>r. sql_eq (Some (fo_Id r)) rid) (Folders s) of
           [] \<Rightarrow> Inl (HttpError 404 ''Folder not found'')
         | folder # _ \<Rightarrow>
             (let oldFull = fo_FullPath folder;
                  parentFull =
                    (case fo_ParentId folder of
                       None \<Rightarrow> ''/root''
                     | Some pid \<Rightarrow>
                         (case filter (\<lambda>r. fo_Id r = pid) (Folders s) of
                            [] \<Rightarrow> ''/root'' | p # _ \<Rightarrow> fo_FullPath p));
                  newFull = parentFull @ ''/'' @ name;
                  s' = rename_update oldFull newFull name (fo_Id folder) s;
                  oldPhys = fullPathToPhysical dn oldFull;
                  newPhys = fullPathToPhysical dn newFull;
                  d' = (case mkdir d (path_dirname newPhys) of
                          None \<Rightarrow> d
                        | Some d1 \<Rightarrow> (case rename d1 oldPhys newPhys of None \<Rightarrow> d1 | Some d2 \<Rightarrow> d2))
              in Inr (d', s'))))"

subsection \<open>Listing reads\<close>

text \<open>
  Both listings probe every row of the record set before it is returned:
  \<^verbatim>\<open>for (const row of r.recordset) {
    try { await fsPromises.access(phys); keep.push(row); }
    catch { cleanupJobs.push(async () => { ... row.Id ... }); }
  }
  cleanupJobs.forEach((job) => jobQueue.enqueue(job));
  res.json(keep);\<close>
\<close>

fun probe_rows ::
  "('r \<Rightarrow> bool) \<Rightarrow> ('r \<Rightarrow> job) \<Rightarrow> 'r list \<Rightarrow> 'r list \<times> job list \<Rightarrow> 'r list \<times> job list" where
  "probe_rows present cleanup [] acc = acc"
| "probe_rows present cleanup (row # rows) acc =
     (if present row then probe_rows present cleanup rows (fst acc @ [row], snd acc)
      else probe_rows present cleanup rows (fst acc, snd acc @ [cleanup row]))"

text \<open>
  \<open>GET /api/files\<close>.  The rows come from the stored procedure \<open>GetFiles\<close>, which is not
  part of the server's source and is a parameter here.  The result is the jobs handed to
  \<open>jobQueue.enqueue\<close>, in order, and the response.
\<close>

definition GET_api_files ::
  "(int option \<Rightarrow> store \<Rightarrow> file_row list) \<Rightarrow> node \<Rightarrow> int option \<Rightarrow> store
     \<Rightarrow> job list \<times> file_row list" where
  "GET_api_files GetFiles disk folderId s =
     (let folderPath =
            (if truthy folderId
             then (case filter (\<lambda>r. sql_eq (Some (fo_Id r)) folderId) (Folders s) of
                     [] \<Rightarrow> ''/root'' | r # _ \<Rightarrow> fo_FullPath r)
             else ''/root'');
          recordset = GetFiles folderId s;
          (keep, cleanupJobs) =
            probe_rows (\<lambda>row. fs_access disk (fi_StoragePath row))
                       (\<lambda>row. CleanupFileJob (fi_Id row)) recordset ([], [])
      in (SyncJob folderId folderPath # cleanupJobs, keep))"

text \<open>
  \<open>GET /api/folders\<close>, the handler that is registered first and answers every request:
  the children of \<open>parentId\<close> (the folders without a parent when it is missing),
  \<open>ORDER BY f.Name\<close>; the ordering of the collation is the parameter \<open>orderByName\<close>.
\<close>

definition GET_api_folders ::
  "string \<Rightarrow> (folder_row list \<Rightarrow> folder_row list) \<Rightarrow> node \<Rightarrow> int option \<Rightarrow> store
     \<Rightarrow> job list \<times> folder_row list" where
  "GET_api_folders dn orderByName disk parentId s =
     (let recordset =
            orderByName
              (filter (\<lambda>f. (parentId = None \<and> fo_ParentId f = None) \<or> sql_eq (fo_ParentId f) parentId)
                      (Folders s));
          (existing, cleanupJobs) =
            probe_rows (\<lambda>row. fs_access disk (fullPathToPhysical dn (fo_FullPath row)))
                       (\<lambda>row. CleanupFolderJob (fo_Id row)) recordset ([], [])
      in (cleanupJobs, existing))"


section \<open>The recursive sync\<close>

text \<open>
  \<open>discoverAndSyncFolderRecursive(folderId, folderFullPath)\<close> is the job that
  \<open>GET /api/files\<close> queues.  It reads the disk and the store, inserts rows, and hands
  cleanup jobs to the queue.  The pass is modelled on one snapshot of the disk and
  without other requests touching the store between its statements.  The store is taken
  to execute every statement: the \<open>catch\<close> around an \<open>INSERT\<close>, which logs and goes on to
  the next entry when the store rejects a row (a path longer than its column, a lost
  connection), and the outer \<open>catch\<close>, which ends the pass, are not taken.
\<close>

text \<open>A JavaScript \<open>Set\<close> of strings keeps insertion order and ignores a second \<open>add\<close>.\<close>

definition set_add :: "string \<Rightarrow> string list \<Rightarrow> string list" where
  "set_add x xs = (if x \<in> set xs then xs else xs @ [x])"

text \<open>
  \<^verbatim>\<open>async function walkDir(dir) {
    let entries;
    try { entries = await fsPromises.readdir(dir, { withFileTypes: true }); }
    catch (e) { return; }
    for (const ent of entries) {
      const fullPath = path.join(dir, ent.name);
      const rel = path.relative(UPLOAD_ROOT, fullPath).replace(/\\/g, "/");
      const logicalFullPath = "/" + rel;
      if (ent.isDirectory()) { seenFolders.add(logicalFullPath); await walkDir(fullPath); }
      else if (ent.isFile()) { seenFiles.add(fullPath.replace(/\\/g, "/")); }
    }
  }\<close>
  The walk carries, next to the path \<open>dir\<close>, the node that \<open>readdir(dir)\<close> reads; \<open>seen\<close> is
  the pair of \<open>seenFolders\<close> and \<open>seenFiles\<close>.
\<close>

fun walkDir :: "string \<Rightarrow> string \<Rightarrow> node \<Rightarrow> string list \<times> string list \<Rightarrow> string list \<times> string list"
and walkEntries ::
  "string \<Rightarrow> string \<Rightarrow> (string \<times> node) list \<Rightarrow> string list \<times> string list
     \<Rightarrow> string list \<times> string list" where
  "walkDir dn dir (DirNode rd ents) seen = (if rd then walkEntries dn dir ents seen else seen)"
| "walkDir dn dir (FileNode sz) seen = seen"
| "walkDir dn dir OtherNode seen = seen"
| "walkEntries dn dir [] seen = seen"
| "walkEntries dn dir ((name, DirNode rd ents) # rest) seen =
     walkEntries dn dir rest
       (walkDir dn (path_join [dir, name]) (DirNode rd ents)
          (set_add (toLogical dn (path_join [dir, name])) (fst seen), snd seen))"
| "walkEntries dn dir ((name, FileNode sz) # rest) seen =
     walkEntries dn dir rest
       (fst seen, set_add (replace_backslashes (path_join [dir, name])) (snd seen))"
| "walkEntries dn dir ((name, OtherNode) # rest) seen = walkEntries dn dir rest seen"

text \<open>
  \<open>existingFolderMap\<close> maps a \<open>FullPath\<close> to \<open>{Id, ParentId}\<close>; a later row with the same
  path replaces an earlier one.
\<close>

type_synonym folder_map = "string \<Rightarrow> (int \<times> int option) option"

definition folder_map_of :: "folder_row list \<Rightarrow> folder_map" where
  "folder_map_of rows = foldl (\<lambda>m r. m(fo_FullPath r \<mapsto> (fo_Id r, fo_ParentId r))) Map.empty rows"

text \<open>
  Inserting the missing folders, shallowest first:
  \<^verbatim>\<open>for (const fFull of seenArr) {
    if (existingFolderMap.has(fFull)) continue;
    const idx = fFull.lastIndexOf("/");
    const parentFull = idx > 0 ? fFull.slice(0, idx) : null;
    const name = fFull.split("/").pop() || fFull;
    const parentEntry = parentFull ? existingFolderMap.get(parentFull) : null;
    const parentIdForInsert = parentEntry ? parentEntry.Id : (folderId || null);
    ... INSERT INTO Folders (Name, ParentId, FullPath) ...
    existingFolderMap.set(fFull, { Id: newRow.Id, ParentId: newRow.ParentId });
    folderIds.push(newRow.Id);
  }\<close>
  The state of the loop is the store, \<open>existingFolderMap\<close> and \<open>folderIds\<close>.
\<close>

fun insertFolders ::
  "int option \<Rightarrow> string list \<Rightarrow> store \<times> folder_map \<times> int list \<Rightarrow> store \<times> folder_map \<times> int list" where
  "insertFolders folderId [] st = st"
| "insertFolders folderId (fFull # rest) (s, existingFolderMap, folderIds) =
     (if existingFolderMap fFull \<noteq> None
      then insertFolders folderId rest (s, existingFolderMap, folderIds)
      else
        (let idx = lastIndexOf_slash fFull;
             parentFull = (if idx > 0 then Some (take (nat idx) fFull) else None);
             name = (let l = last (split_on slash fFull) in if l = [] then fFull else l);
             parentEntry = (case parentFull of None \<Rightarrow> None | Some p \<Rightarrow> existingFolderMap p);
             parentIdForInsert =
               (case parentEntry of
                  Some e \<Rightarrow> Some (fst e)
                | None \<Rightarrow> (if truthy folderId then folderId else None));
             (newRow, s') = insert_Folder name parentIdForInsert fFull s
         in insertFolders folderId rest
              (s', existingFolderMap(fFull \<mapsto> (fo_Id newRow, fo_ParentId newRow)),
               folderIds @ [fo_Id newRow])))"

text \<open>
  Inserting the missing files.  \<open>known\<close> is the key set of \<open>existingFilesMap\<close>, the
  \<open>StoragePath\<close>s of the files in the folders of \<open>folderIds\<close>, queried once before the
  loop:
  \<^verbatim>\<open>for (const filePath of seenFiles) {
    if (existingFilesMap.has(filePath)) continue;
    const dir = path.dirname(filePath);
    const rel = path.relative(UPLOAD_ROOT, dir).replace(/\\/g, "/");
    const folderFull = "/" + rel;
    const folderEntry = existingFolderMap.get(folderFull);
    if (!folderEntry) { console.warn(...); continue; }
    try {
      const stat = await fsPromises.stat(filePath);
      const size = stat.size || 0;
      const name = path.basename(filePath);
      ... INSERT INTO Files (FolderId, Name, StoragePath, SizeBytes, MimeType) ...
    } catch (err) { console.error(...); }
  }\<close>
\<close>

fun insertFiles ::
  "string \<Rightarrow> node \<Rightarrow> folder_map \<Rightarrow> string list \<Rightarrow> string list \<Rightarrow> store \<Rightarrow> store" where
  "insertFiles dn disk existingFolderMap known [] s = s"
| "insertFiles dn disk existingFolderMap known (filePath # rest) s =
     (if filePath \<in> set known then insertFiles dn disk existingFolderMap known rest s
      else
        (case existingFolderMap (toLogical dn (path_dirname filePath)) of
           None \<Rightarrow> insertFiles dn disk existingFolderMap known rest s
         | Some folderEntry \<Rightarrow>
             (case fs_stat_size disk filePath of
                None \<Rightarrow> insertFiles dn disk existingFolderMap known rest s
              | Some sz \<Rightarrow>
                  insertFiles dn disk existingFolderMap known rest
                    (insert_File (Some (fst folderEntry)) (path_basename filePath)
                       (replace_backslashes filePath) sz ''application/octet-stream'' s))))"

text \<open>
  The rows of
  \<^verbatim>\<open>SELECT f.Id, f.StoragePath FROM Files f
  INNER JOIN Folders fo ON fo.Id = f.FolderId WHERE fo.FullPath LIKE @FolderPrefix;\<close>
\<close>

definition files_under :: "string \<Rightarrow> store \<Rightarrow> file_row list" where
  "files_under folderPrefix s =
     concat (map (\<lambda>f. map (\<lambda>fo. f)
                        (filter (\<lambda>fo. sql_eq (Some (fo_Id fo)) (fi_FolderId f)
                                       \<and> sql_like (fo_FullPath fo) folderPrefix) (Folders s)))
                 (Files s))"

definition discoverAndSyncFolderRecursive ::
  "string \<Rightarrow> node \<Rightarrow> int option \<Rightarrow> string \<Rightarrow> store \<Rightarrow> store \<times> job list" where
  "discoverAndSyncFolderRecursive dn disk folderId folderFullPath s =
     (let physBase = fullPathToPhysical dn folderFullPath in
      case fs_lookup disk physBase of
        None \<Rightarrow> (s, [])
      | Some baseNode \<Rightarrow>
          (let folderPrefix = folderFullPath @ ''%'';
               folderRows = filter (\<lambda>r. sql_like (fo_FullPath r) folderPrefix) (Folders s);
               (walkedFolders, seenFiles) = walkDir dn physBase baseNode ([], []);
               seenFolders = set_add folderFullPath walkedFolders;
               seenArr = sort_key (\<lambda>a. length (split_on slash a)) seenFolders;
               (s1, existingFolderMap, folderIds) =
                 insertFolders folderId seenArr
                   (s, folder_map_of folderRows, map fo_Id folderRows);
               known = map fi_StoragePath (filter (\<lambda>f. sql_in (fi_FolderId f) folderIds) (Files s1));
               s2 = insertFiles dn disk existingFolderMap known seenFiles s1;
               fileJobs = map (\<lambda>rf. CleanupFileJob (fi_Id rf))
                              (filter (\<lambda>rf. fi_StoragePath rf \<notin> set seenFiles)
                                      (files_under folderPrefix s2));
               folderJobs = map (\<lambda>rf. CleanupFolderJob (fo_Id rf))
                                (filter (\<lambda>rf. sql_like (fo_FullPath rf) folderPrefix
                                               \<and> fo_FullPath rf \<notin> set seenFolders) (Folders s2))
           in (s2, fileJobs @ folderJobs)))"


subsection \<open>What a pass can see\<close>










definition sync_jobs :: "string \<Rightarrow> node \<Rightarrow> int option \<Rightarrow> string \<Rightarrow> store \<Rightarrow> job list" where
  "sync_jobs dn disk folderId folderFullPath s =
     snd (discoverAndSyncFolderRecursive dn disk folderId folderFullPath s)"



text \<open>
  The jobs that only run \<open>DELETE\<close> statements on the store, as opposed to the jobs that
  remove something from disk or start another pass.
\<close>

fun db_cleanup_job :: "job \<Rightarrow> bool" where
  "db_cleanup_job (CleanupFileJob i) = True"
| "db_cleanup_job (CleanupFolderJob i) = True"
| "db_cleanup_job _ = False"




section \<open>Invariants of the folder table and example states\<close>

text \<open>\<open>x.startsWith(p)\<close>, and the rows that a path prefix selects.\<close>

definition starts_with :: "string \<Rightarrow> string \<Rightarrow> bool" where
  "starts_with p x = (take (length p) x = p)"

definition prefix_folder_ids :: "string \<Rightarrow> store \<Rightarrow> int list" where
  "prefix_folder_ids p s = map fo_Id (filter (\<lambda>r. starts_with p (fo_FullPath r)) (Folders s))"

definition prefix_file_ids :: "string \<Rightarrow> store \<Rightarrow> int list" where
  "prefix_file_ids p s =
     map fi_Id (filter (\<lambda>f. sql_in (fi_FolderId f) (prefix_folder_ids p s)) (Files s))"

text \<open>
  The prefix of a path up to its last slash, and the two invariants of the folder table:
  the prefix of every \<open>FullPath\<close> up to its last slash is empty or the \<open>FullPath\<close> of a
  folder; the \<open>FullPath\<close> of a folder with a parent is the parent's \<open>FullPath\<close>, a slash
  and the folder's \<open>Name\<close>.
\<close>

definition parent_path :: "string \<Rightarrow> string" where
  "parent_path p = take (nat (lastIndexOf_slash p)) p"

definition ancestor_closed :: "store \<Rightarrow> bool" where
  "ancestor_closed s =
     list_all (\<lambda>r. parent_path (fo_FullPath r) = []
                   \<or> parent_path (fo_FullPath r) \<in> set (map fo_FullPath (Folders s))) (Folders s)"

definition full_path_inv :: "store \<Rightarrow> bool" where
  "full_path_inv s =
     list_all (\<lambda>r. case fo_ParentId r of
                     None \<Rightarrow> True
                   | Some pid \<Rightarrow>
                       list_ex (\<lambda>p. fo_Id p = pid
                                    \<and> fo_FullPath r = fo_FullPath p @ ''/'' @ fo_Name r) (Folders s))
              (Folders s)"

text \<open>States used to evaluate the handlers.\<close>

definition root_row :: folder_row where
  "root_row = \<lparr>fo_Id = 1, fo_Name = ''root'', fo_ParentId = None, fo_FullPath = ''/root''\<rparr>"

definition store_root :: store where
  "store_root = \<lparr>Folders = [root_row], Files = [], FileTags = [], FolderTags = [],
                  nextFolderId = 2, nextFileId = 1\<rparr>"

definition store_AB :: store where
  "store_AB =
     \<lparr>Folders = [root_row,
                 \<lparr>fo_Id = 2, fo_Name = ''A'', fo_ParentId = Some 1, fo_FullPath = ''/root/A''\<rparr>,
                 \<lparr>fo_Id = 3, fo_Name = ''AB'', fo_ParentId = Some 1, fo_FullPath = ''/root/AB''\<rparr>,
                 \<lparr>fo_Id = 4, fo_Name = ''C'', fo_ParentId = Some 1, fo_FullPath = ''/root/C''\<rparr>],
      Files = [\<lparr>fi_Id = 1, fi_FolderId = Some 3, fi_Name = ''n.txt'',
                 fi_StoragePath = ''/srv/uploads/root/AB/n.txt'', fi_SizeBytes = 5,
                 fi_MimeType = ''text/plain''\<rparr>,
               \<lparr>fi_Id = 2, fi_FolderId = Some 4, fi_Name = ''m.txt'',
                 fi_StoragePath = ''/srv/uploads/root/C/m.txt'', fi_SizeBytes = 6,
                 fi_MimeType = ''text/plain''\<rparr>],
      FileTags = [(1, 7), (2, 7)], FolderTags = [(3, 7), (4, 7)],
      nextFolderId = 5, nextFileId = 3\<rparr>"

definition store_wild :: store where
  "store_wild =
     \<lparr>Folders = [root_row,
                 \<lparr>fo_Id = 2, fo_Name = ''a_b'', fo_ParentId = Some 1, fo_FullPath = ''/root/a_b''\<rparr>,
                 \<lparr>fo_Id = 3, fo_Name = ''axb'', fo_ParentId = Some 1, fo_FullPath = ''/root/axb''\<rparr>],
      Files = [\<lparr>fi_Id = 1, fi_FolderId = Some 3, fi_Name = ''n.txt'',
                 fi_StoragePath = ''/srv/uploads/root/axb/n.txt'', fi_SizeBytes = 5,
                 fi_MimeType = ''text/plain''\<rparr>],
      FileTags = [(1, 7)], FolderTags = [],
      nextFolderId = 4, nextFileId = 2\<rparr>"

definition store_brackets :: store where
  "store_brackets =
     \<lparr>Folders = [root_row,
                 \<lparr>fo_Id = 2, fo_Name = ''a[1]'', fo_ParentId = Some 1, fo_FullPath = ''/root/a[1]''\<rparr>,
                 \<lparr>fo_Id = 3, fo_Name = ''b'', fo_ParentId = Some 2, fo_FullPath = ''/root/a[1]/b''\<rparr>],
      Files = [], FileTags = [], FolderTags = [],
      nextFolderId = 4, nextFileId = 1\<rparr>"








section \<open>Verification: the path mapper\<close>

lemma join_with_Cons: "join_with sep (x # xs) = (if xs = [] then x else x @ sep @ join_with sep xs)"
  by (cases xs) auto

lemma split_on_plain: "c \<notin> set xs \<Longrightarrow> split_on c xs = [xs]"
  by (induction xs) auto

lemma split_on_sep: "c \<notin> set xs \<Longrightarrow> split_on c (xs @ c # ys) = xs # split_on c ys"
  by (induction xs) auto

lemma split_join:
  "segs \<noteq> [] \<Longrightarrow> list_all (\<lambda>x. slash \<notin> set x) segs \<Longrightarrow> split_on slash (join_with ''/'' segs) = segs"
proof (induction segs)
  case (Cons x xs)
  then show ?case using split_on_sep[of slash x "join_with ''/'' xs"]
    by (cases "xs = []") (simp_all add: join_with_Cons split_on_plain slash_def)
qed simp

lemma split_abs:
  "list_all (\<lambda>x. slash \<notin> set x) segs \<Longrightarrow>
     split_on slash (abs_path segs) = [] # (if segs = [] then [[]] else segs)"
  using split_join[of segs] by (auto simp: abs_path_def slash_def)

lemma norm_good: "list_all good_seg segs \<Longrightarrow> foldl (norm_step b) acc segs = acc @ segs"
  by (induction segs arbitrary: acc) (auto simp: norm_step_def good_seg_def)

lemma norm_step_empty: "norm_step b acc [] = acc"
  by (simp add: norm_step_def)

lemma good_nonempty: "list_all good_seg segs \<Longrightarrow> list_all (\<lambda>x. x \<noteq> []) segs"
  by (induction segs) (auto simp: good_seg_def)

lemma good_noslash: "list_all good_seg segs \<Longrightarrow> list_all (\<lambda>x. slash \<notin> set x) segs"
  by (induction segs) (auto simp: good_seg_def)

lemma normalize_abs:
  "list_all good_seg segs \<Longrightarrow> normalize_segs b (split_on slash (abs_path segs)) = segs"
  using good_noslash[of segs]
  by (cases "segs = []") (simp_all add: split_abs normalize_segs_def norm_step_empty norm_good)

lemma join_with_nonempty: "segs \<noteq> [] \<Longrightarrow> list_all (\<lambda>x. x \<noteq> []) segs \<Longrightarrow> join_with sep segs \<noteq> []"
  by (induction segs) (auto simp: join_with_Cons)

lemma join_with_last:
  "segs \<noteq> [] \<Longrightarrow> list_all (\<lambda>x. x \<noteq> []) segs \<Longrightarrow> last (join_with sep segs) = last (last segs)"
proof (induction segs)
  case (Cons x xs)
  then show ?case using join_with_nonempty[of xs sep]
    by (cases "xs = []") (simp_all add: join_with_Cons)
qed simp

lemma last_abs_not_slash:
  assumes "segs \<noteq> []" "list_all good_seg segs"
  shows "last (abs_path segs) \<noteq> slash"
proof -
  have ne: "join_with ''/'' segs \<noteq> []" using assms join_with_nonempty good_nonempty by blast
  have "last segs \<in> set segs" using assms by simp
  then have g: "good_seg (last segs)" using assms(2) by (simp add: list_all_iff)
  then have "last (last segs) \<noteq> slash" by (metis good_seg_def last_in_set)
  then show ?thesis using ne join_with_last[OF assms(1) good_nonempty[OF assms(2)], of "''/''"]
    by (simp add: abs_path_def)
qed

lemma path_normalize_abs:
  assumes "list_all good_seg segs"
  shows "path_normalize (abs_path segs) = abs_path segs"
proof (cases "segs = []")
  case True
  then show ?thesis by (simp add: path_normalize_def abs_path_def slash_def normalize_segs_def norm_step_def)
next
  case False
  have ne: "join_with ''/'' segs \<noteq> []" using False assms join_with_nonempty good_nonempty by blast
  have l: "last (abs_path segs) \<noteq> slash" using last_abs_not_slash[OF False assms] .
  have h: "hd (abs_path segs) = slash" by (simp add: abs_path_def slash_def)
  have a: "abs_path segs \<noteq> []" by (simp add: abs_path_def)
  show ?thesis using ne l h a normalize_abs[OF assms, of False]
    by (simp add: path_normalize_def Let_def) (simp add: abs_path_def)
qed

lemma join_with_append:
  "xs \<noteq> [] \<Longrightarrow> ys \<noteq> [] \<Longrightarrow> join_with sep (xs @ ys) = join_with sep xs @ sep @ join_with sep ys"
  by (induction xs) (auto simp: join_with_Cons)

lemma abs_path_append:
  "ys \<noteq> [] \<Longrightarrow> abs_path (xs @ ys) = (if xs = [] then ''/'' else abs_path xs @ ''/'') @ join_with ''/'' ys"
  by (simp add: abs_path_def join_with_append)

lemma path_join_abs:
  assumes "list_all good_seg a" "list_all good_seg t"
  shows "path_join (abs_path a # t) = abs_path (a @ t)"
proof (cases "t = []")
  case True
  then show ?thesis using path_normalize_abs[OF assms(1)]
    by (simp add: path_join_def abs_path_def)
next
  case False
  have ne: "list_all (\<lambda>x. x \<noteq> []) t" using good_nonempty[OF assms(2)] .
  then have f: "filter (\<lambda>a. a \<noteq> []) (abs_path a # t) = abs_path a # t"
    by (simp add: abs_path_def list_all_iff)
  have j: "join_with ''/'' (abs_path a # t) = abs_path a @ ''/'' @ join_with ''/'' t"
    using False by (simp add: join_with_Cons)
  have s: "split_on slash (abs_path a @ ''/'' @ join_with ''/'' t)
      = split_on slash (abs_path a) @ t"
  proof (cases "a = []")
    case True
    then show ?thesis using split_on_sep[of slash "[]" "join_with ''/'' t"] False
        split_join[OF False good_noslash[OF assms(2)]]
      by (simp add: abs_path_def slash_def)
  next
    case an: False
    have "abs_path a @ ''/'' @ join_with ''/'' t = abs_path (a @ t)"
      using an False by (simp add: abs_path_append)
    moreover have "list_all (\<lambda>x. slash \<notin> set x) (a @ t)"
      using good_noslash[OF assms(1)] good_noslash[OF assms(2)] by simp
    ultimately show ?thesis using split_abs[of "a @ t"] split_abs[of a] good_noslash[OF assms(1)] an
      by simp
  qed
  have n: "normalize_segs False (split_on slash (abs_path a) @ t) = a @ t"
    using normalize_abs[OF assms(1), of False] norm_good[OF assms(2), of False]
    by (simp add: normalize_segs_def)
  have at: "a @ t \<noteq> []" "list_all good_seg (a @ t)" using False assms by simp_all
  have jn: "join_with ''/'' (a @ t) \<noteq> []"
    using join_with_nonempty[OF at(1) good_nonempty[OF at(2)]] .
  have eq: "abs_path a @ ''/'' @ join_with ''/'' t = (if a = [] then ''/'' else []) @ abs_path (a @ t)"
    using False by (cases "a = []") (simp_all add: abs_path_append, simp add: abs_path_def)
  have l: "last (abs_path a @ ''/'' @ join_with ''/'' t) \<noteq> slash"
    using last_abs_not_slash[OF at] eq False by (cases "a = []") (simp_all add: abs_path_def)
  have h: "hd (abs_path a @ ''/'' @ join_with ''/'' t) = slash" by (simp add: abs_path_def slash_def)
  show ?thesis unfolding path_join_def f Let_def j
    using s n l h jn by (simp add: path_normalize_def Let_def) (simp add: abs_path_def)
qed


lemma good_uploads: "good_seg ''uploads''"
  by (simp add: good_seg_def slash_def)

lemma UPLOAD_ROOT_abs:
  "list_all good_seg d \<Longrightarrow> UPLOAD_ROOT (abs_path d) = abs_path (d @ [''uploads''])"
  using path_join_abs[of d "[''uploads'']"] by (simp add: UPLOAD_ROOT_def good_uploads)

lemma fullPathToPhysical_abs:
  assumes "list_all good_seg d" "list_all good_seg segs"
  shows "fullPathToPhysical (abs_path d) (abs_path segs) = abs_path (d @ ''uploads'' # segs)"
proof -
  have f: "filter (\<lambda>p. p \<noteq> []) (split_on slash (abs_path segs)) = segs"
    using split_abs[OF good_noslash[OF assms(2)]] good_nonempty[OF assms(2)]
    by (cases "segs = []") (simp_all add: list_all_iff)
  have g: "list_all good_seg (d @ [''uploads''])" using assms(1) by (simp add: good_uploads)
  show ?thesis unfolding fullPathToPhysical_def f UPLOAD_ROOT_abs[OF assms(1)]
    using path_join_abs[OF g assms(2)] by simp
qed

lemma common_prefix_len_append: "common_prefix_len r (r @ t) = length r"
  by (induction r) auto

lemma path_relative_abs:
  assumes "list_all good_seg r" "list_all good_seg t"
  shows "path_relative (abs_path r) (abs_path (r @ t)) = join_with ''/'' t"
proof -
  have g: "list_all good_seg (r @ t)" using assms by simp
  show ?thesis
    by (simp add: path_relative_def normalize_abs[OF assms(1)] normalize_abs[OF g]
          common_prefix_len_append Let_def)
qed

lemma replace_backslashes_id: "backslash \<notin> set x \<Longrightarrow> replace_backslashes x = x"
  by (induction x) (auto simp: replace_backslashes_def)

lemma join_with_set: "set (join_with ''/'' segs) \<subseteq> insert slash (\<Union>x\<in>set segs. set x)"
  by (induction segs) (auto simp: join_with_Cons slash_def)

lemma good_name_seg: "list_all good_name segs \<Longrightarrow> list_all good_seg segs"
  by (induction segs) (auto simp: good_name_def)

lemma join_no_backslash:
  assumes "list_all good_name segs"
  shows "backslash \<notin> set (join_with ''/'' segs)"
proof
  assume "backslash \<in> set (join_with ''/'' segs)"
  then have "backslash \<in> insert slash (\<Union>x\<in>set segs. set x)" using join_with_set by blast
  then show False using assms by (auto simp: list_all_iff good_name_def backslash_def slash_def)
qed

lemma toLogical_abs:
  assumes "list_all good_seg d" "list_all good_name t"
  shows "toLogical (abs_path d) (abs_path (d @ ''uploads'' # t)) = abs_path t"
proof -
  have g: "list_all good_seg (d @ [''uploads''])" using assms(1) by (simp add: good_uploads)
  have "path_relative (abs_path (d @ [''uploads''])) (abs_path ((d @ [''uploads'']) @ t)) = join_with ''/'' t"
    using path_relative_abs[OF g good_name_seg[OF assms(2)]] .
  then show ?thesis
    using replace_backslashes_id[OF join_no_backslash[OF assms(2)]] UPLOAD_ROOT_abs[OF assms(1)]
    by (simp add: toLogical_def abs_path_def)
qed

text \<open>
  C7 (as amended).  For the server directory \<open>abs_path d\<close> with well-formed segments and
  a logical path \<open>abs_path segs\<close> whose segments are non-empty, free of slashes and
  backslashes and neither \<open>.\<close> nor \<open>..\<close>, mapping to the physical path and back gives
  the logical path again.
\<close>

theorem path_round_trip:
  assumes "list_all good_seg d" and "list_all good_name segs"
  shows "toLogical (abs_path d) (fullPathToPhysical (abs_path d) (abs_path segs)) = abs_path segs"
  using fullPathToPhysical_abs[OF assms(1) good_name_seg[OF assms(2)]] toLogical_abs[OF assms]
  by simp

theorem path_round_trip_witness:
  "list_all good_seg [''srv'', ''app''] \<and> list_all good_name [''root'', ''photos'', ''2023'']
   \<and> toLogical ''/srv/app'' (fullPathToPhysical ''/srv/app'' ''/root/photos/2023'') = ''/root/photos/2023''"
proof -
  have d: "list_all good_seg [''srv'', ''app'']" by (simp add: good_seg_def slash_def)
  have s: "list_all good_name [''root'', ''photos'', ''2023'']"
    by (simp add: good_name_def good_seg_def slash_def backslash_def)
  show ?thesis using d s path_round_trip[OF d s] by (simp add: abs_path_def)
qed

text \<open>
  The claim as stated fails for a segment \<open>.\<close>: \<open>path.join\<close> normalises it away.
\<close>

theorem path_round_trip_counterexample:
  "''/root/./a'' = ''/'' @ join_with ''/'' [''root'', ''.'', ''a'']
   \<and> list_all (\<lambda>x. x \<noteq> [] \<and> slash \<notin> set x) [''root'', ''.'', ''a'']
   \<and> toLogical ''/srv/app'' (fullPathToPhysical ''/srv/app'' ''/root/./a'') = ''/root/a''
   \<and> ''/root/a'' \<noteq> ''/root/./a''"
  by (simp add: toLogical_def fullPathToPhysical_def UPLOAD_ROOT_def path_join_def path_normalize_def
        path_relative_def normalize_segs_def norm_step_def replace_backslashes_def slash_def
        backslash_def Let_def)

section \<open>Verification: the job queue\<close>

lemma serial_append: "serial (xs @ ys) = serial xs @ serial ys"
  by (simp add: serial_def)

lemma finished_simps:
  "finished (q\<lparr>trace := t\<rparr>) = concat (map (\<lambda>e. case e of Start j \<Rightarrow> [] | Finish j \<Rightarrow> [j]) t)"
  "finished (q\<lparr>jobs := js\<rparr>) = finished q"
  "finished (q\<lparr>processing := b\<rparr>) = finished q"
  "finished (q\<lparr>awaiting := a\<rparr>) = finished q"
  "finished (q\<lparr>errors := e\<rparr>) = finished q"
  by (simp_all add: finished_def)

lemma drain_inv:
  assumes "awaiting q = []" "processing q" "trace q = serial (finished q)"
    "errors q = filter (\<lambda>j. fails (beh j)) (finished q)"
  shows "qinv beh (drain beh js q) \<and> served (drain beh js q) = finished q @ js
     \<and> work beh (drain beh js q) = sum_list (map (\<lambda>j. cost (beh j)) js)"
  using assms
proof (induction js arbitrary: q)
  case Nil
  then show ?case by (simp add: qinv_def served_def finished_simps work_def)
next
  case (Cons j js)
  show ?case
  proof (cases "beh j")
    case ThrowsAtCall
    let ?q = "q\<lparr>trace := trace q @ [Start j, Finish j], errors := errors q @ [j]\<rparr>"
    have f: "finished ?q = finished q @ [j]" by (simp add: finished_def)
    have t: "trace ?q = serial (finished ?q)"
      unfolding f using Cons.prems(3) by (simp add: serial_def)
    have e: "errors ?q = filter (\<lambda>j. fails (beh j)) (finished ?q)"
      unfolding f using Cons.prems(4) ThrowsAtCall by (simp add: fails_def)
    have "qinv beh (drain beh js ?q) \<and> served (drain beh js ?q) = finished ?q @ js
        \<and> work beh (drain beh js ?q) = sum_list (map (\<lambda>j. cost (beh j)) js)"
      using Cons.IH[of ?q, OF _ _ t e] Cons.prems(1,2) by simp
    then show ?thesis unfolding f using ThrowsAtCall by (simp add: cost_def)
  next
    case (Settles n ok)
    then show ?thesis using Cons.prems
      by (simp add: qinv_def served_def finished_def work_def cost_def)
  qed
qed

lemma step_inv:
  assumes "qinv beh q"
  shows "qinv beh (step beh q a)
     \<and> served (step beh q a) = served q @ (case a of Enqueue fn \<Rightarrow> [fn] | Resume i \<Rightarrow> [])"
proof (cases a)
  case (Enqueue fn)
  show ?thesis
  proof (cases "processing q")
    case True
    then show ?thesis using assms Enqueue
      by (auto simp: qinv_def enqueue_def process_def served_def finished_def)
  next
    case False
    then have e: "awaiting q = []" "jobs q = []" using assms by (auto simp: qinv_def)
    let ?q = "q\<lparr>jobs := [fn], processing := True\<rparr>"
    have f: "finished ?q = finished q" by (simp add: finished_def)
    have t: "trace ?q = serial (finished ?q)"
      unfolding f using assms e by (simp add: qinv_def)
    have er: "errors ?q = filter (\<lambda>j. fails (beh j)) (finished ?q)"
      unfolding f using assms by (simp add: qinv_def)
    have p: "processing ?q" "awaiting ?q = []" using e by simp_all
    have d: "qinv beh (drain beh [fn] ?q) \<and> served (drain beh [fn] ?q) = finished ?q @ [fn]
        \<and> work beh (drain beh [fn] ?q) = sum_list (map (\<lambda>j. cost (beh j)) [fn])"
      using drain_inv[OF p(2) p(1) t er] .
    have r: "step beh q a = drain beh [fn] ?q"
      using Enqueue False e by (simp add: enqueue_def process_def)
    show ?thesis unfolding r using d Enqueue e unfolding f by (simp add: served_def)
  qed
next
  case (Resume i)
  show ?thesis
  proof (cases "i < length (awaiting q)")
    case False
    then show ?thesis using assms Resume by (simp add: resume_def)
  next
    case True
    then obtain j k where a: "awaiting q = [(j, k)]" and i: "i = 0"
      using assms by (cases "awaiting q") (auto simp: qinv_def)
    show ?thesis
    proof (cases k)
      case (Suc n)
      then show ?thesis using assms Resume a i
        by (simp add: resume_def qinv_def served_def finished_def)
    next
      case 0
      let ?q = "q\<lparr>awaiting := [], trace := trace q @ [Finish j],
                   errors := (if fails (beh j) then errors q @ [j] else errors q)\<rparr>"
      have f: "finished ?q = finished q @ [j]" by (simp add: finished_def)
      have t: "trace ?q = serial (finished ?q)"
        unfolding f using assms a by (simp add: qinv_def serial_def)
      have e: "errors ?q = filter (\<lambda>j. fails (beh j)) (finished ?q)"
        unfolding f using assms by (simp add: qinv_def)
      have p: "processing ?q" "awaiting ?q = []" using assms a by (simp_all add: qinv_def)
      have d: "qinv beh (drain beh (jobs ?q) ?q) \<and> served (drain beh (jobs ?q) ?q) = finished ?q @ jobs ?q
        \<and> work beh (drain beh (jobs ?q) ?q) = sum_list (map (\<lambda>j. cost (beh j)) (jobs ?q))"
        using drain_inv[OF p(2) p(1) t e] .
      have r: "step beh q a = drain beh (jobs ?q) ?q"
        using Resume a i 0 by (simp add: resume_def Let_def)
      show ?thesis unfolding r using d Resume a unfolding f by (simp add: served_def)
    qed
  qed
qed

lemma run_snoc: "run beh (acts @ [a]) = step beh (run beh acts) a"
  by (simp add: run_def)

lemma run_inv: "qinv beh (run beh acts) \<and> served (run beh acts) = enqueued acts"
proof (induction acts rule: rev_induct)
  case Nil
  show ?case by (simp add: run_def new_JobQueue_def qinv_def served_def finished_def enqueued_def serial_def)
next
  case (snoc a acts)
  then show ?case using step_inv[of beh "run beh acts" a]
    by (simp add: run_snoc enqueued_def)
qed

lemma resume_work:
  assumes "qinv beh q" "awaiting q \<noteq> []"
  shows "Suc (work beh (resume beh 0 q)) = work beh q"
proof -
  obtain j k where a: "awaiting q = [(j, k)]"
    using assms by (cases "awaiting q") (auto simp: qinv_def)
  show ?thesis
  proof (cases k)
    case (Suc n)
    then show ?thesis using a by (simp add: resume_def work_def)
  next
    case 0
    let ?q = "q\<lparr>awaiting := [], trace := trace q @ [Finish j],
                 errors := (if fails (beh j) then errors q @ [j] else errors q)\<rparr>"
    have f: "finished ?q = finished q @ [j]" by (simp add: finished_def)
    have t: "trace ?q = serial (finished ?q)"
      unfolding f using assms a by (simp add: qinv_def serial_def)
    have e: "errors ?q = filter (\<lambda>j. fails (beh j)) (finished ?q)"
      unfolding f using assms by (simp add: qinv_def)
    have p: "processing ?q" "awaiting ?q = []" using assms a by (simp_all add: qinv_def)
    have d: "qinv beh (drain beh (jobs ?q) ?q) \<and> served (drain beh (jobs ?q) ?q) = finished ?q @ jobs ?q
        \<and> work beh (drain beh (jobs ?q) ?q) = sum_list (map (\<lambda>j. cost (beh j)) (jobs ?q))"
      using drain_inv[OF p(2) p(1) t e] .
    have r: "resume beh 0 q = drain beh (jobs ?q) ?q"
      using a 0 by (simp add: resume_def Let_def)
    show ?thesis unfolding r using d a 0 by (simp add: work_def)
  qed
qed

lemma idle_work: "qinv beh q \<Longrightarrow> awaiting q = [] \<Longrightarrow> work beh q = 0"
  by (simp add: qinv_def work_def)

lemma resume_pow:
  "qinv beh q \<Longrightarrow> work beh q = n \<Longrightarrow>
     qinv beh ((resume beh 0 ^^ n) q) \<and> awaiting ((resume beh 0 ^^ n) q) = []
     \<and> served ((resume beh 0 ^^ n) q) = served q"
proof (induction n arbitrary: q)
  case 0
  then have "awaiting q = []" by (cases "awaiting q") (auto simp: work_def)
  then show ?case using 0 by simp
next
  case (Suc n)
  then have ne: "awaiting q \<noteq> []" by (auto simp: idle_work)
  have w: "work beh (resume beh 0 q) = n" using resume_work[OF Suc.prems(1) ne] Suc.prems(2) by simp
  have i: "qinv beh (resume beh 0 q) \<and> served (resume beh 0 q) = served q"
    using step_inv[OF Suc.prems(1), of "Resume 0"] by simp
  show ?case using Suc.IH[of "resume beh 0 q"] w i by (simp add: funpow_swap1)
qed

lemma settle_inv:
  assumes "qinv beh q"
  shows "qinv beh (settle beh q) \<and> awaiting (settle beh q) = [] \<and> served (settle beh q) = served q"
  using resume_pow[OF assms refl] by (simp add: settle_def)

text \<open>
  C4.  Whatever the sequence of \<open>enqueue\<close> calls and resumptions: at most one call of
  \<open>process()\<close> is suspended in a job; the trace is a sequence of jobs that each start and
  end before the next one starts; the jobs that have ended, the one that runs and the
  ones that wait are, in this order, the jobs in the order of their \<open>enqueue\<close>; an
  \<open>enqueue\<close> that finds the queue empty and \<open>processing\<close> cleared starts its job at once;
  and after enough resumptions every job enqueued has run, in that order.
\<close>

theorem job_queue_serial_fifo:
  "length (awaiting (run beh acts)) \<le> 1
   \<and> processing (run beh acts) = (awaiting (run beh acts) \<noteq> [])
   \<and> trace (run beh acts)
       = serial (finished (run beh acts)) @ map (\<lambda>a. Start (fst a)) (awaiting (run beh acts))
   \<and> finished (run beh acts) @ map fst (awaiting (run beh acts)) @ jobs (run beh acts)
       = enqueued acts
   \<and> (jobs (run beh acts) = [] \<and> \<not> processing (run beh acts) \<longrightarrow>
        trace (enqueue beh fn (run beh acts))
          = trace (run beh acts) @ Start fn # (if beh fn = ThrowsAtCall then [Finish fn] else []))
   \<and> trace (settle beh (run beh acts)) = serial (enqueued acts)"
proof -
  let ?q = "run beh acts"
  have i: "qinv beh ?q" and s: "served ?q = enqueued acts"
    using run_inv[of beh acts] by simp_all
  have r: "jobs ?q = [] \<and> \<not> processing ?q \<longrightarrow>
        trace (enqueue beh fn ?q) = trace ?q @ Start fn # (if beh fn = ThrowsAtCall then [Finish fn] else [])"
    by (cases "beh fn") (auto simp: enqueue_def process_def)
  have t: "qinv beh (settle beh ?q) \<and> awaiting (settle beh ?q) = []
      \<and> served (settle beh ?q) = served ?q"
    using settle_inv[OF i] .
  then have a: "awaiting (settle beh ?q) = []" and j: "jobs (settle beh ?q) = []"
    and v: "served (settle beh ?q) = enqueued acts"
    using s by (simp_all add: qinv_def)
  have "finished (settle beh ?q) = enqueued acts" using v unfolding served_def a j by simp
  then have "trace (settle beh ?q) = serial (enqueued acts)" using t a by (simp add: qinv_def)
  then show ?thesis using i s r by (simp add: qinv_def served_def)
qed

theorem job_queue_serial_fifo_witness:
  "jobs (run (\<lambda>j::nat. Settles 0 True) [Enqueue 1, Resume 0]) = []
   \<and> \<not> processing (run (\<lambda>j::nat. Settles 0 True) [Enqueue 1, Resume 0])
   \<and> trace (enqueue (\<lambda>j::nat. Settles 0 True) 2 (run (\<lambda>j::nat. Settles 0 True) [Enqueue 1, Resume 0]))
       = [Start 1, Finish 1, Start 2]"
  using job_queue_serial_fifo [of "\<lambda>j::nat. Settles 0 True" "[Enqueue 1, Resume 0]" 2]
  by (simp add: run_def new_JobQueue_def enqueue_def process_def resume_def)

text \<open>
  C5.  A job that fails, at the call or by a rejected promise, is reported by
  \<open>console.error\<close> inside \<open>process()\<close> and counts as ended: the errors logged are exactly
  the failing jobs among those that have ended; and when the queue has come to rest every
  job enqueued has ended exactly once, in order, failing or not, the failing ones are
  logged, and the queue is idle with \<open>processing\<close> cleared, ready for the next \<open>enqueue\<close>.
\<close>

theorem job_errors_contained:
  "errors (run beh acts) = filter (\<lambda>j. fails (beh j)) (finished (run beh acts))
   \<and> finished (settle beh (run beh acts)) = enqueued acts
   \<and> errors (settle beh (run beh acts)) = filter (\<lambda>j. fails (beh j)) (enqueued acts)
   \<and> \<not> processing (settle beh (run beh acts))
   \<and> jobs (settle beh (run beh acts)) = []
   \<and> awaiting (settle beh (run beh acts)) = []"
proof -
  let ?q = "run beh acts"
  have i: "qinv beh ?q" and s: "served ?q = enqueued acts"
    using run_inv[of beh acts] by simp_all
  have t: "qinv beh (settle beh ?q) \<and> awaiting (settle beh ?q) = []
      \<and> served (settle beh ?q) = served ?q"
    using settle_inv[OF i] .
  then have a: "awaiting (settle beh ?q) = []" and j: "jobs (settle beh ?q) = []"
    and v: "served (settle beh ?q) = enqueued acts"
    using s by (simp_all add: qinv_def)
  have f: "finished (settle beh ?q) = enqueued acts" using v unfolding served_def a j by simp
  have e: "errors (settle beh ?q) = filter (\<lambda>j. fails (beh j)) (enqueued acts)"
    using t f by (simp add: qinv_def)
  have p: "\<not> processing (settle beh ?q)" using t a by (simp add: qinv_def)
  show ?thesis using i a j f e p by (simp add: qinv_def)
qed

theorem job_errors_contained_witness:
  "errors (settle (\<lambda>j::nat. if j = 2 then Settles 1 False else if j = 3 then ThrowsAtCall else Settles 0 True)
             (run (\<lambda>j::nat. if j = 2 then Settles 1 False else if j = 3 then ThrowsAtCall else Settles 0 True)
                  [Enqueue 1, Enqueue 2, Resume 0, Enqueue 3, Enqueue 4])) = [2, 3]
   \<and> finished (settle (\<lambda>j::nat. if j = 2 then Settles 1 False else if j = 3 then ThrowsAtCall else Settles 0 True)
             (run (\<lambda>j::nat. if j = 2 then Settles 1 False else if j = 3 then ThrowsAtCall else Settles 0 True)
                  [Enqueue 1, Enqueue 2, Resume 0, Enqueue 3, Enqueue 4])) = [1, 2, 3, 4]"
  using job_errors_contained
    [of "\<lambda>j::nat. if j = 2 then Settles 1 False else if j = 3 then ThrowsAtCall else Settles 0 True"
        "[Enqueue 1, Enqueue 2, Resume 0, Enqueue 3, Enqueue 4]"]
  by (simp add: enqueued_def fails_def)

section \<open>Verification: cleanup jobs and listing reads\<close>

lemma filter_none: "filter P (filter (\<lambda>r. \<not> P r) xs) = []"
  by (induction xs) auto

lemma cleanupFile_twice: "cleanupFile fileId (cleanupFile fileId s) = cleanupFile fileId s"
  by (simp add: cleanupFile_def delete_Files_def delete_FileTags_def)

lemma cleanupFolder_twice:
  "cleanupFolder folderId (cleanupFolder folderId s) = cleanupFolder folderId s"
  by (simp add: cleanupFolder_def delete_Files_def delete_FileTags_def delete_Folders_def
        Let_def filter_none)

text \<open>
  C6.  Running the cleanup job of a file, or of a folder, a second time on the same id
  leaves the store as the first run left it, and removes no row.
\<close>

theorem cleanup_idempotent:
  "cleanupFile fileId (cleanupFile fileId s) = cleanupFile fileId s
   \<and> rows_removed (cleanupFile fileId s) (cleanupFile fileId (cleanupFile fileId s)) = 0
   \<and> cleanupFolder folderId (cleanupFolder folderId s) = cleanupFolder folderId s
   \<and> rows_removed (cleanupFolder folderId s) (cleanupFolder folderId (cleanupFolder folderId s)) = 0"
  by (simp add: cleanupFile_twice cleanupFolder_twice rows_removed_def)

lemma probe_rows_eq:
  "probe_rows present cleanup rows acc =
     (fst acc @ filter present rows, snd acc @ map cleanup (filter (\<lambda>r. \<not> present r) rows))"
  by (induction rows arbitrary: acc) auto

text \<open>
  C3.  Both listings answer with the rows of their record set that pass the probe,
  unchanged and in order, and hand to the queue one cleanup job for each row that fails
  it, carrying that row's \<open>Id\<close> (\<open>GET /api/files\<close> after the sync job it queues first).
\<close>

theorem listing_excludes_stale_rows:
  "snd (GET_api_files GetFiles disk folderId s)
     = filter (\<lambda>row. fs_access disk (fi_StoragePath row)) (GetFiles folderId s)
   \<and> tl (fst (GET_api_files GetFiles disk folderId s))
     = map (\<lambda>row. CleanupFileJob (fi_Id row))
           (filter (\<lambda>row. \<not> fs_access disk (fi_StoragePath row)) (GetFiles folderId s))
   \<and> snd (GET_api_folders dn orderByName disk parentId s)
     = filter (\<lambda>row. fs_access disk (fullPathToPhysical dn (fo_FullPath row)))
         (orderByName (filter (\<lambda>f. (parentId = None \<and> fo_ParentId f = None)
                                     \<or> sql_eq (fo_ParentId f) parentId) (Folders s)))
   \<and> fst (GET_api_folders dn orderByName disk parentId s)
     = map (\<lambda>row. CleanupFolderJob (fo_Id row))
         (filter (\<lambda>row. \<not> fs_access disk (fullPathToPhysical dn (fo_FullPath row)))
            (orderByName (filter (\<lambda>f. (parentId = None \<and> fo_ParentId f = None)
                                        \<or> sql_eq (fo_ParentId f) parentId) (Folders s))))"
  by (simp add: GET_api_files_def GET_api_folders_def probe_rows_eq Let_def)

section \<open>Verification: deleting, renaming and creating folders\<close>

lemma like_tokens_plain:
  "like_plain p \<Longrightarrow> like_tokens None (p @ ''%'') = Some (map Literal p @ [AnyString])"
  by (induction p) (auto simp: like_plain_def)

lemma like_run_any: "like_run [AnyString] x"
  by (induction x) auto

lemma like_run_literal: "like_run (map Literal p @ [AnyString]) x = starts_with p x"
proof (induction p arbitrary: x)
  case Nil
  then show ?case by (simp add: like_run_any starts_with_def)
next
  case (Cons c p)
  then show ?case by (cases x) (auto simp: starts_with_def)
qed

lemma sql_like_prefix: "like_plain p \<Longrightarrow> sql_like x (p @ ''%'') = starts_with p x"
  by (simp add: sql_like_def like_tokens_plain like_run_literal)

lemma filter_filter_not: "filter (\<lambda>r. \<not> P r) (filter (\<lambda>r. \<not> Q r) xs) = filter (\<lambda>r. \<not> Q r) (filter (\<lambda>r. \<not> P r) xs)"
  by (induction xs) auto

text \<open>
  Deleting a folder whose \<open>FullPath\<close> has none of the characters \<open>%\<close>, \<open>_\<close> and \<open>[\<close>, with
  \<open>LIKE\<close> comparing characters exactly as \<open>sql_like\<close> does: the request removes the
  folders whose \<open>FullPath\<close> starts with that of the folder (with their \<open>FolderTags\<close>), the
  files of those folders and the \<open>FileTags\<close> of those files, and nothing else.  In the
  example \<open>/root/A\<close> is deleted in a state with a sibling \<open>/root/AB\<close>: the sibling, its
  file and their tags go too.
\<close>

lemma delete_folder_plain_path:
  assumes "truthy rid" and "sql_Int_range rid"
    and "filter (\<lambda>r. sql_eq (Some (fo_Id r)) rid) (Folders s) = F # others"
    and "like_plain (fo_FullPath F)"
  shows "DELETE_api_folder dn rid s =
     Inr (s\<lparr>Folders := filter (\<lambda>r. \<not> starts_with (fo_FullPath F) (fo_FullPath r)) (Folders s),
            Files := filter (\<lambda>f. \<not> sql_in (fi_FolderId f) (prefix_folder_ids (fo_FullPath F) s)) (Files s),
            FileTags := filter (\<lambda>ft. fst ft \<notin> set (prefix_file_ids (fo_FullPath F) s)) (FileTags s),
            FolderTags := filter (\<lambda>ft. fst ft \<notin> set (prefix_folder_ids (fo_FullPath F) s)) (FolderTags s)\<rparr>,
          RmFolderJob (fullPathToPhysical dn (fo_FullPath F)))"
  using assms
  by (simp add: DELETE_api_folder_def Let_def sql_like_prefix delete_Folders_def delete_Files_def
        delete_FileTags_def prefix_folder_ids_def prefix_file_ids_def)

lemma ev_path: "fullPathToPhysical ''/srv'' ''/root/A'' = ''/srv/uploads/root/A''"
  by (simp add: fullPathToPhysical_def UPLOAD_ROOT_def path_join_def path_normalize_def
        normalize_segs_def norm_step_def slash_def Let_def)

lemma delete_folder_sibling_example:
  "truthy (Some 2)
   \<and> like_plain ''/root/A''
   \<and> DELETE_api_folder ''/srv'' (Some 2) store_AB =
       Inr (\<lparr>Folders = [root_row,
                        \<lparr>fo_Id = 4, fo_Name = ''C'', fo_ParentId = Some 1, fo_FullPath = ''/root/C''\<rparr>],
             Files = [\<lparr>fi_Id = 2, fi_FolderId = Some 4, fi_Name = ''m.txt'',
                       fi_StoragePath = ''/srv/uploads/root/C/m.txt'', fi_SizeBytes = 6,
                       fi_MimeType = ''text/plain''\<rparr>],
             FileTags = [(2, 7)], FolderTags = [(4, 7)], nextFolderId = 5, nextFileId = 3\<rparr>,
            RmFolderJob ''/srv/uploads/root/A'')"
proof -
  have t: "truthy (Some 2)" by (simp add: truthy_def)
  have g: "sql_Int_range (Some 2)" by (simp add: sql_Int_range_def)
  have f: "filter (\<lambda>r. sql_eq (Some (fo_Id r)) (Some 2)) (Folders store_AB)
     = \<lparr>fo_Id = 2, fo_Name = ''A'', fo_ParentId = Some 1, fo_FullPath = ''/root/A''\<rparr> # []"
    by (simp add: store_AB_def root_row_def sql_eq_def)
  have l: "like_plain (fo_FullPath \<lparr>fo_Id = 2, fo_Name = ''A'', fo_ParentId = Some 1, fo_FullPath = ''/root/A''\<rparr>)"
    by (simp add: like_plain_def)
  show ?thesis
    using t l delete_folder_plain_path[OF t g f l, of "''/srv''"]
    by (simp add: store_AB_def root_row_def starts_with_def prefix_folder_ids_def prefix_file_ids_def
          sql_in_def ev_path)
qed

text \<open>
  C10.  The rows to delete are selected by \<open>FullPath LIKE folder.FullPath + "%"\<close>, and the
  folder's own path is not escaped.  Deleting \<open>/root/a_b\<close> in a state that also holds
  the sibling \<open>/root/axb\<close> with a file and a tag: \<open>_\<close> in the pattern \<open>/root/a_b%\<close>
  stands for any one character, whatever the collation, so the folder, file and tag
  rows of \<open>/root/axb\<close> are removed as well, although \<open>/root/axb\<close> does not start with
  \<open>/root/a_b\<close>.  The rows whose path does start with \<open>/root/a_b\<close> are those of the folder
  alone, and the job removes from disk the directory of \<open>/root/a_b\<close> only.
\<close>

theorem delete_folder_removes_rows_outside_prefix:
  "DELETE_api_folder ''/srv'' (Some 2) store_wild =
       Inr (\<lparr>Folders = [root_row], Files = [], FileTags = [], FolderTags = [],
              nextFolderId = 4, nextFileId = 2\<rparr>,
            RmFolderJob ''/srv/uploads/root/a_b'')
   \<and> \<not> starts_with ''/root/a_b'' ''/root/axb''
   \<and> filter (\<lambda>r. \<not> starts_with ''/root/a_b'' (fo_FullPath r)) (Folders store_wild)
       = [root_row,
          \<lparr>fo_Id = 3, fo_Name = ''axb'', fo_ParentId = Some 1, fo_FullPath = ''/root/axb''\<rparr>]
   \<and> filter (\<lambda>f. \<not> sql_in (fi_FolderId f) (prefix_folder_ids ''/root/a_b'' store_wild))
         (Files store_wild) = Files store_wild
   \<and> filter (\<lambda>ft. fst ft \<notin> set (prefix_file_ids ''/root/a_b'' store_wild))
         (FileTags store_wild) = FileTags store_wild"
  by (simp add: DELETE_api_folder_def store_wild_def root_row_def truthy_def sql_Int_range_def
        sql_eq_def sql_in_def sql_like_def in_char_set_def delete_Folders_def delete_Files_def delete_FileTags_def
        starts_with_def prefix_folder_ids_def prefix_file_ids_def Let_def
        fullPathToPhysical_def UPLOAD_ROOT_def path_join_def path_normalize_def
        normalize_segs_def norm_step_def slash_def)


text \<open>
  Renaming: for an old path without wild cards and without a trailing blank, the
  \<open>UPDATE\<close> substitutes the prefix in every row whose path starts with it.
\<close>

lemma sql_SUBSTRING_tail:
  "length x \<le> length old + 2000 \<Longrightarrow> sql_SUBSTRING x (Suc (length old)) 2000 = drop (length old) x"
  by (simp add: sql_SUBSTRING_def)

lemma sql_LEN_no_trailing_blank: "old = [] \<or> last old \<noteq> CHR '' '' \<Longrightarrow> sql_LEN old = length old"
  by (cases old rule: rev_cases) (auto simp: sql_LEN_def)

lemma rename_update_prefix_substitution:
  assumes "like_plain old" and "old = [] \<or> last old \<noteq> CHR '' ''"
    and "list_all (\<lambda>r. length (fo_FullPath r) \<le> length old + 2000) (Folders s)"
  shows "Folders (rename_update old new nm i s) =
     map (\<lambda>r. (if starts_with old (fo_FullPath r)
                then r\<lparr>fo_FullPath := new @ drop (length old) (fo_FullPath r)\<rparr> else r)
               \<lparr>fo_Name := (if fo_Id r = i then nm else fo_Name r)\<rparr>) (Folders s)"
  using assms(3)
  by (auto simp: rename_update_def Let_def sql_like_prefix[OF assms(1)]
        sql_LEN_no_trailing_blank[OF assms(2)] sql_SUBSTRING_tail list_all_iff)

text \<open>
  C9.  Renaming the folder \<open>/root/a[1]\<close>, which has the child \<open>/root/a[1]/b\<close>, to \<open>c\<close>:
  the pattern \<open>/root/a[1]%\<close> matches neither path, so the \<open>Name\<close> becomes \<open>c\<close> while both
  \<open>FullPath\<close>s stay as they were.
\<close>

theorem rename_misses_bracket_paths:
  "PATCH_api_folder ''/srv'' (\<lambda>d p. None) (\<lambda>d p q. None) (Some 2) ''c'' ((), store_brackets) =
     Inr ((), \<lparr>Folders = [root_row,
                 \<lparr>fo_Id = 2, fo_Name = ''c'', fo_ParentId = Some 1, fo_FullPath = ''/root/a[1]''\<rparr>,
                 \<lparr>fo_Id = 3, fo_Name = ''b'', fo_ParentId = Some 2, fo_FullPath = ''/root/a[1]/b''\<rparr>],
               Files = [], FileTags = [], FolderTags = [], nextFolderId = 4, nextFileId = 1\<rparr>)
   \<and> starts_with ''/root/a[1]'' ''/root/a[1]/b''"
  by (simp add: PATCH_api_folder_def store_brackets_def root_row_def truthy_def sql_eq_def
        name_rejected_def js_space_def rename_update_def sql_like_def in_char_set_def
        starts_with_def Let_def)

text \<open>
  C8.  \<open>POST /api/folders\<close> accepts the name \<open>a/b\<close> and inserts \<open>/root/a/b\<close> under the
  root, although no folder has the path \<open>/root/a\<close>: the table was ancestor-closed before
  and is not afterwards.
\<close>

theorem create_folder_breaks_ancestor_closure:
  "ancestor_closed store_root \<and> full_path_inv store_root
   \<and> \<not> name_rejected ''a/b''
   \<and> POST_api_folders ''/srv'' (\<lambda>d p. Some d) ''a/b'' (Some 1) ((), store_root) =
       Inr (\<lparr>fo_Id = 2, fo_Name = ''a/b'', fo_ParentId = Some 1, fo_FullPath = ''/root/a/b''\<rparr>, (),
            \<lparr>Folders = [root_row,
                        \<lparr>fo_Id = 2, fo_Name = ''a/b'', fo_ParentId = Some 1, fo_FullPath = ''/root/a/b''\<rparr>],
              Files = [], FileTags = [], FolderTags = [], nextFolderId = 3, nextFileId = 1\<rparr>)
   \<and> \<not> ancestor_closed
         \<lparr>Folders = [root_row,
                     \<lparr>fo_Id = 2, fo_Name = ''a/b'', fo_ParentId = Some 1, fo_FullPath = ''/root/a/b''\<rparr>],
           Files = [], FileTags = [], FolderTags = [], nextFolderId = 3, nextFileId = 1\<rparr>"
  by (simp add: ancestor_closed_def full_path_inv_def parent_path_def lastIndexOf_slash_def
        store_root_def root_row_def POST_api_folders_def truthy_def sql_eq_def insert_Folder_def
        name_rejected_def js_space_def slash_def Let_def)

section \<open>Verification: the recursive sync\<close>














lemma lookup_entries_Cons:
  "x \<noteq> name \<Longrightarrow> lookup_segs (DirNode rd ((name, n) # rest)) (x # xs) = lookup_segs (DirNode rd rest) (x # xs)"
  by simp













lemma insertFolders_known:
  "m x \<noteq> None \<Longrightarrow> insertFolders f (x # xs) (s, m, ids) = insertFolders f xs (s, m, ids)"
  by simp
























subsection \<open>The jobs of a pass\<close>















text \<open>
  A pass queues nothing but database cleanups, whatever the disk and the store.  It has
  no statement that writes to the disk: in the model the disk is an argument and not a
  result.
\<close>

lemma sync_queues_no_disk_job:
  "\<forall>j\<in>set (sync_jobs dn disk folderId folderFullPath s). db_cleanup_job j"
  by (auto simp: sync_jobs_def discoverAndSyncFolderRecursive_def Let_def
      split: option.splits prod.splits)




end
